theory Spec2Isabelle
  imports Main "HOL-Library.AList" "HOL-Library.Sublist"
begin

section \<open>sparkyRecipValidate: the data of the program\<close>

text \<open>
  The program reads rows of a CSV file, optionally checks their syntax locally, sends one
  GET request per field to the recipient-validation endpoint and writes a CSV row for each
  usable answer. The embedding follows \<^verbatim>\<open>sparkyRecipValidate.py\<close>:
  \<^verbatim>\<open>validateRecipients\<close> (lines 11-40) and \<^verbatim>\<open>processFile\<close> (lines 42-88).

  Values decoded by \<^verbatim>\<open>resp.json()\<close>. A JSON object is the Python dict, kept as an
  association list in insertion order; JSON numbers are kept as integers (only their being
  zero or not is looked at by the program).
\<close>

datatype json =
    JNull
  | JBool bool
  | JNum int
  | JStr string
  | JArr "json list"
  | JObj "(string \<times> json) list"

text \<open>The exceptions that the two functions can let escape.\<close>

datatype error =
    UnboundLocalError
  | JSONDecodeError
  | TypeError
  | KeyError
  | ValueError
  | RequestException

text \<open>
  The request handed to \<^verbatim>\<open>session.get(thisReq, headers=h)\<close> and the response read
  back through \<^verbatim>\<open>resp.status_code\<close> and \<^verbatim>\<open>resp.json()\<close>. The body is \<open>None\<close> when it is
  not valid JSON, which is where \<^verbatim>\<open>resp.json()\<close> raises.
\<close>

record request =
  req_method :: string
  req_url :: string
  req_headers :: "(string \<times> string) list"

record response =
  status_code :: int
  resp_json :: "json option"

text \<open>The result of \<^verbatim>\<open>validate_email(recip, check_deliverability=False)\<close>: it returns, or
  raises \<^verbatim>\<open>EmailNotValidError\<close> with a readable message.\<close>

datatype verdict = SyntaxOK | NotValid string

text \<open>
  What the program takes from outside: the module-level \<^verbatim>\<open>url\<close>; the library function
  \<^verbatim>\<open>requests.compat.urljoin\<close>, which returns the joined URL or raises (\<^verbatim>\<open>ValueError\<close> on a
  reference it cannot parse); what \<^verbatim>\<open>future.result()\<close> gives for the \<open>n\<close>-th request of the
  run, counted from 0: the response of the remote API, or an exception of the HTTP session
  (no adapter for the scheme of the URL, no connection); and the syntax checker.
\<close>

record env =
  g_url :: string
  urljoin :: "string \<Rightarrow> string \<Rightarrow> error + string"
  api :: "nat \<Rightarrow> request \<Rightarrow> error + response"
  validate_email :: "string \<Rightarrow> verdict"

text \<open>The input file: its name, whether it can seek, and the records that \<^verbatim>\<open>csv.reader\<close>
  yields from its start, each with the number of lines of the file it takes up (one, but
  for a quoted field that runs over several lines) and its list of fields. The input is
  one that the reader parses to its end.\<close>

record infile =
  in_name :: string
  in_seekable :: bool
  in_records :: "(nat \<times> string list) list"

definition in_rows :: "infile \<Rightarrow> string list list" where
  "in_rows infile = map snd (in_records infile)"

text \<open>The arguments of the calls to \<^verbatim>\<open>eprint\<close> and to \<^verbatim>\<open>print\<close>.\<close>

datatype log_entry =
    LogBadSyntax nat string string
  | LogScanned string nat nat
  | LogSkipping
  | LogErrorResponse json
  | LogDone

datatype printed = PrintStatus int | PrintSnoozing

text \<open>
  Everything the program changes: the read position of the input (in records), the rows
  handed to the CSV writer of the output file, the error channel, standard output, the
  sleeps, the requests handed to \<^verbatim>\<open>session.get\<close>, the progress bar, and whether the two
  files are closed.
\<close>

record world =
  in_pos :: nat
  out_rows :: "json list list"
  err_log :: "log_entry list"
  std_out :: "printed list"
  slept :: "nat list"
  sent :: "request list"
  pbar_total :: nat
  pbar_n :: nat
  in_closed :: bool
  out_closed :: bool

definition init_world :: world where
  "init_world = \<lparr>in_pos = 0, out_rows = [], err_log = [], std_out = [], slept = [],
     sent = [], pbar_total = 0, pbar_n = 0, in_closed = False, out_closed = False\<rparr>"

text \<open>A call either returns or raises; both leave a world behind.\<close>

datatype outcome = Returned world | Raised error world

fun world_of :: "outcome \<Rightarrow> world" where
  "world_of (Returned w) = w"
| "world_of (Raised e w) = w"

fun returned :: "outcome \<Rightarrow> bool" where
  "returned (Returned w) = True"
| "returned (Raised e w) = False"

section \<open>Python values\<close>

text \<open>Truth value of a decoded body, as \<^verbatim>\<open>content and ...\<close> tests it.\<close>

fun truthy :: "json \<Rightarrow> bool" where
  "truthy JNull = False"
| "truthy (JBool b) = b"
| "truthy (JNum n) = (n \<noteq> 0)"
| "truthy (JStr s) = (s \<noteq> [])"
| "truthy (JArr xs) = (xs \<noteq> [])"
| "truthy (JObj kvs) = (kvs \<noteq> [])"

fun starts_with :: "string \<Rightarrow> string \<Rightarrow> bool" where
  "starts_with [] ys = True"
| "starts_with (x # xs) [] = False"
| "starts_with (x # xs) (y # ys) = (x = y \<and> starts_with xs ys)"

fun contains_str :: "string \<Rightarrow> string \<Rightarrow> bool" where
  "contains_str n [] = (n = [])"
| "contains_str n (y # ys) = (starts_with n (y # ys) \<or> contains_str n ys)"

text \<open>\<^verbatim>\<open>k in content\<close> for a string \<open>k\<close>: key of a dict, element of a list, substring of a
  string, and \<^verbatim>\<open>TypeError\<close> on \<^verbatim>\<open>None\<close>, booleans and numbers.\<close>

fun py_in :: "string \<Rightarrow> json \<Rightarrow> error + bool" where
  "py_in k (JObj kvs) = Inr (map_of kvs k \<noteq> None)"
| "py_in k (JArr xs) = Inr (JStr k \<in> set xs)"
| "py_in k (JStr s) = Inr (contains_str k s)"
| "py_in k JNull = Inl TypeError"
| "py_in k (JBool b) = Inl TypeError"
| "py_in k (JNum n) = Inl TypeError"

text \<open>\<^verbatim>\<open>content[k]\<close> for a string \<open>k\<close>.\<close>

fun py_getitem :: "json \<Rightarrow> string \<Rightarrow> error + json" where
  "py_getitem (JObj kvs) k = (case map_of kvs k of None \<Rightarrow> Inl KeyError | Some v \<Rightarrow> Inr v)"
| "py_getitem (JArr xs) k = Inl TypeError"
| "py_getitem (JStr s) k = Inl TypeError"
| "py_getitem JNull k = Inl TypeError"
| "py_getitem (JBool b) k = Inl TypeError"
| "py_getitem (JNum n) k = Inl TypeError"

text \<open>\<^verbatim>\<open>row[k] = v\<close> for a string \<open>k\<close>: a dict keeps the place of a key it has and puts a
  new key last; nothing else takes a string key.\<close>

fun py_setitem :: "json \<Rightarrow> string \<Rightarrow> json \<Rightarrow> error + (string \<times> json) list" where
  "py_setitem (JObj kvs) k v = Inr (AList.update k v kvs)"
| "py_setitem (JArr xs) k v = Inl TypeError"
| "py_setitem (JStr s) k v = Inl TypeError"
| "py_setitem JNull k v = Inl TypeError"
| "py_setitem (JBool b) k v = Inl TypeError"
| "py_setitem (JNum n) k v = Inl TypeError"

section \<open>The output writer and the channels\<close>

text \<open>Line 76, and the \<^verbatim>\<open>DictWriter\<close> of line 77 with \<^verbatim>\<open>restval=''\<close> and
  \<^verbatim>\<open>extrasaction='ignore'\<close>: a row is the list of the cells of the fixed columns, a column
  the dict lacks being the empty string; keys outside the columns are not looked at.\<close>

definition fList :: "string list" where
  "fList = [''email'', ''valid'', ''result'', ''reason'', ''is_role'', ''is_disposable'',
            ''is_free'', ''did_you_mean'']"

definition dict_to_list :: "(string \<times> json) list \<Rightarrow> json list" where
  "dict_to_list rowdict =
     map (\<lambda>key. case map_of rowdict key of None \<Rightarrow> JStr '''' | Some v \<Rightarrow> v) fList"

definition writerow :: "(string \<times> json) list \<Rightarrow> world \<Rightarrow> world" where
  "writerow rowdict w = w\<lparr>out_rows := out_rows w @ [dict_to_list rowdict]\<rparr>"

definition header_row :: "json list" where
  "header_row = map JStr fList"

definition writeheader :: "world \<Rightarrow> world" where
  "writeheader w = w\<lparr>out_rows := out_rows w @ [header_row]\<rparr>"

text \<open>Modelled from the spec: \<^verbatim>\<open>eprint\<close> of the module \<^verbatim>\<open>common\<close>, which is not among the
  sources; it writes its arguments to the error channel, apart from the result stream.\<close>

definition eprint :: "log_entry \<Rightarrow> world \<Rightarrow> world" where
  "eprint entry w = w\<lparr>err_log := err_log w @ [entry]\<rparr>"

definition print :: "printed \<Rightarrow> world \<Rightarrow> world" where
  "print p w = w\<lparr>std_out := std_out w @ [p]\<rparr>"

definition sleep :: "nat \<Rightarrow> world \<Rightarrow> world" where
  "sleep n w = w\<lparr>slept := slept w @ [n]\<rparr>"

definition pbar_update :: "nat \<Rightarrow> world \<Rightarrow> world" where
  "pbar_update n w = w\<lparr>pbar_n := pbar_n w + n\<rparr>"

section \<open>validateRecipients\<close>

text \<open>Line 30: \<^verbatim>\<open>content and 'results' in content\<close>, the membership test being reached
  only by a truthy body.\<close>

definition has_results :: "json \<Rightarrow> error + bool" where
  "has_results content = (if truthy content then py_in ''results'' content else Inr False)"

text \<open>Lines 28-40: what is done with the response to the request for address \<open>i\<close>.\<close>

definition handle_response :: "string \<Rightarrow> response \<Rightarrow> world \<Rightarrow> outcome" where
  "handle_response i resp w =
     (case resp_json resp of
        None \<Rightarrow> Raised JSONDecodeError w
      | Some content \<Rightarrow>
          if status_code resp = 200 then
            (case has_results content of
               Inl e \<Rightarrow> Raised e w
             | Inr True \<Rightarrow>
                 (case py_getitem content ''results'' of
                    Inl e \<Rightarrow> Raised e w
                  | Inr row \<Rightarrow>
                      (case py_setitem row ''email'' (JStr i) of
                         Inl e \<Rightarrow> Raised e w
                       | Inr row' \<Rightarrow> Returned (pbar_update 1 (writerow row' w))))
             | Inr False \<Rightarrow> Returned (pbar_update 1 (eprint (LogErrorResponse content) w)))
          else Returned (sleep 10 (print PrintSnoozing (print (PrintStatus (status_code resp)) w))))"

text \<open>Lines 19 and 25: the request \<^verbatim>\<open>session.get(thisReq, headers=h)\<close>.\<close>

definition mk_request :: "string \<Rightarrow> string \<Rightarrow> request" where
  "mk_request apiKey thisReq =
     \<lparr>req_method = ''GET'', req_url = thisReq,
      req_headers = [(''Authorization'', apiKey), (''Accept'', ''application/json'')]\<rparr>"

text \<open>Lines 24-40, the body of the inner loop: \<^verbatim>\<open>urljoin\<close> may raise before any request is
  made; the list \<^verbatim>\<open>futures\<close> holds one future, so the loop over \<^verbatim>\<open>as_completed(futures)\<close>
  runs its body once, and \<^verbatim>\<open>future.result()\<close> gives the response or raises.\<close>

definition one_address :: "env \<Rightarrow> string \<Rightarrow> string \<Rightarrow> world \<Rightarrow> outcome" where
  "one_address E apiKey i w =
     (case urljoin E (g_url E) i of
        Inl e \<Rightarrow> Raised e w
      | Inr thisReq \<Rightarrow>
          (let w1 = w\<lparr>sent := sent w @ [mk_request apiKey thisReq]\<rparr> in
           case api E (length (sent w)) (mk_request apiKey thisReq) of
             Inl e \<Rightarrow> Raised e w1
           | Inr resp \<Rightarrow> handle_response i resp w1))"

text \<open>Line 23: \<^verbatim>\<open>for i in address\<close>.\<close>

fun address_loop :: "env \<Rightarrow> string \<Rightarrow> string list \<Rightarrow> world \<Rightarrow> outcome" where
  "address_loop E apiKey [] w = Returned w"
| "address_loop E apiKey (i # rest) w =
     (case one_address E apiKey i w of
        Raised e w' \<Rightarrow> Raised e w'
      | Returned w' \<Rightarrow> address_loop E apiKey rest w')"

text \<open>Line 22: \<^verbatim>\<open>for address in f\<close>, over the rows the reader still has to yield; each row
  read moves the input one record on.\<close>

fun row_loop :: "env \<Rightarrow> string \<Rightarrow> string list list \<Rightarrow> world \<Rightarrow> outcome" where
  "row_loop E apiKey [] w = Returned w"
| "row_loop E apiKey (address # rest) w =
     (case address_loop E apiKey address (w\<lparr>in_pos := in_pos w + 1\<rparr>) of
        Raised e w' \<Rightarrow> Raised e w'
      | Returned w' \<Rightarrow> row_loop E apiKey rest w')"

text \<open>Lines 11-40. The reader \<^verbatim>\<open>f\<close> yields the rows from the read position on; \<^verbatim>\<open>snooze\<close> is
  a parameter the body does not use.\<close>

definition validateRecipients ::
  "env \<Rightarrow> infile \<Rightarrow> string \<Rightarrow> nat \<Rightarrow> nat \<Rightarrow> world \<Rightarrow> outcome" where
  "validateRecipients E infile apiKey snooze count w =
     row_loop E apiKey (drop (in_pos w) (in_rows infile)) (w\<lparr>pbar_total := count, pbar_n := 0\<rparr>)"

section \<open>processFile\<close>

text \<open>Lines 57-68: the scan of the precheck, with the two counters and \<^verbatim>\<open>f.line_num\<close>, the
  number of lines this reader has read.\<close>

fun precheck_loop ::
  "env \<Rightarrow> (nat \<times> string list) list \<Rightarrow> nat \<Rightarrow> nat \<Rightarrow> nat \<Rightarrow> world
     \<Rightarrow> nat \<times> nat \<times> world" where
  "precheck_loop E [] line_num count_ok count_bad w = (count_ok, count_bad, w)"
| "precheck_loop E ((n, r) # rest) line_num count_ok count_bad w =
     (let w1 = w\<lparr>in_pos := in_pos w + 1\<rparr> in
      if length r = 1 then
        (case validate_email E (r ! 0) of
           SyntaxOK \<Rightarrow> precheck_loop E rest (line_num + n) (count_ok + 1) count_bad w1
         | NotValid msg \<Rightarrow>
             precheck_loop E rest (line_num + n) count_ok (count_bad + 1)
               (eprint (LogBadSyntax (line_num + n) (r ! 0) msg) w1))
      else precheck_loop E rest (line_num + n) count_ok (count_bad + 1) w1)"

text \<open>Lines 55-71: a new reader scans from the read position, then the summary and the
  rewind.\<close>

definition precheck :: "env \<Rightarrow> infile \<Rightarrow> world \<Rightarrow> nat \<times> nat \<times> world" where
  "precheck E infile w =
     (case precheck_loop E (drop (in_pos w) (in_records infile)) 0 0 0 w of
        (count_ok, count_bad, w1) \<Rightarrow>
          (count_ok, count_bad,
           (eprint (LogScanned (in_name infile) count_ok count_bad) w1)\<lparr>in_pos := 0\<rparr>))"

text \<open>Lines 82-88: both files are closed and \<^verbatim>\<open>Done\<close> is logged, twice over.\<close>

definition close_files :: "world \<Rightarrow> world" where
  "close_files w = eprint LogDone (w\<lparr>in_closed := True, out_closed := True\<rparr>)"

text \<open>Lines 53-88. \<^verbatim>\<open>count_ok\<close> is a local variable that only the precheck branch assigns:
  on the other branch line 80 reads it unassigned, after the header has been written.
  The parameter \<^verbatim>\<open>url\<close> is not used: \<^verbatim>\<open>validateRecipients\<close> reads the module-level one.\<close>

definition processFile ::
  "env \<Rightarrow> infile \<Rightarrow> string \<Rightarrow> string \<Rightarrow> nat \<Rightarrow> bool \<Rightarrow> world \<Rightarrow> outcome" where
  "processFile E infile url apiKey snooze skip_precheck w =
     (let (count_ok, w1) =
            (if in_seekable infile \<and> \<not> skip_precheck then
               (case precheck E infile w of (ok, bad, w') \<Rightarrow> (Some ok, w'))
             else (None, eprint LogSkipping w));
          w2 = writeheader w1
      in case count_ok of
           None \<Rightarrow> Raised UnboundLocalError w2
         | Some count \<Rightarrow>
             (case validateRecipients E infile apiKey snooze count w2 of
                Raised e w3 \<Rightarrow> Raised e w3
              | Returned w3 \<Rightarrow> Returned (close_files (close_files w3))))"

section \<open>Predicates and inputs the theorems speak about\<close>

text \<open>
  The bodies that lines 29-36 get through without raising when the status is 200:
  a falsy body, a dict without \<^verbatim>\<open>results\<close> or whose \<^verbatim>\<open>results\<close> is itself a dict, and a
  list or a string that does not contain \<^verbatim>\<open>'results'\<close>.
\<close>

fun well_shaped :: "json \<Rightarrow> bool" where
  "well_shaped JNull = True"
| "well_shaped (JBool b) = (\<not> b)"
| "well_shaped (JNum n) = (n = 0)"
| "well_shaped (JStr s) = (\<not> contains_str ''results'' s)"
| "well_shaped (JArr xs) = (JStr ''results'' \<notin> set xs)"
| "well_shaped (JObj kvs) =
     (case map_of kvs ''results'' of None \<Rightarrow> True | Some (JObj p) \<Rightarrow> True | Some _ \<Rightarrow> False)"

text \<open>The bodies on which the test of line 30 is false: the falsy ones, a dict without the
  key \<^verbatim>\<open>results\<close>, a list without the element \<^verbatim>\<open>'results'\<close> and a string without the
  substring \<^verbatim>\<open>results\<close>.\<close>

fun lacks_results :: "json \<Rightarrow> bool" where
  "lacks_results JNull = True"
| "lacks_results (JBool b) = (\<not> b)"
| "lacks_results (JNum n) = (n = 0)"
| "lacks_results (JStr s) = (\<not> contains_str ''results'' s)"
| "lacks_results (JArr xs) = (JStr ''results'' \<notin> set xs)"
| "lacks_results (JObj kvs) = (map_of kvs ''results'' = None)"

text \<open>A response the program can take: its body is valid JSON and, when the status is
  200, of one of the shapes above.\<close>

definition benign :: "response \<Rightarrow> bool" where
  "benign resp =
     (case resp_json resp of
        None \<Rightarrow> False
      | Some content \<Rightarrow> status_code resp = 200 \<longrightarrow> well_shaped content)"

text \<open>Percent-encoding as the interface description of the remote API words it: every
  character outside the unreserved set becomes \<^verbatim>\<open>%\<close> and two hexadecimal digits. No
  function of the program computes this; it is what the request URL is compared with.\<close>

definition unreserved :: "char \<Rightarrow> bool" where
  "unreserved c =
     (c \<in> set ''abcdefghijklmnopqrstuvwxyzABCDEFGHIJKLMNOPQRSTUVWXYZ0123456789-._~'')"

definition hex_digit :: "nat \<Rightarrow> char" where
  "hex_digit n = ''0123456789ABCDEF'' ! n"

definition spec_percent_encode :: "string \<Rightarrow> string" where
  "spec_percent_encode s =
     concat (map (\<lambda>c. if unreserved c then [c]
                        else [CHR ''%'', hex_digit (of_char c div 16),
                              hex_digit (of_char c mod 16)]) s)"

text \<open>
  Concrete inputs. The endpoint is the one lines 109-110 build for the default host; for a
  base that ends in a slash and a reference that is one plain path segment,
  \<^verbatim>\<open>urljoin\<close> appends the reference to the base. The syntax checker of the examples asks
  for an at-sign only.
\<close>

definition example_env :: "(nat \<Rightarrow> request \<Rightarrow> error + response) \<Rightarrow> env" where
  "example_env a =
     \<lparr>g_url = ''https://api.sparkpost.com/api/v1/recipient-validation/single/'',
      urljoin = (\<lambda>base ref. Inr (base @ ref)),
      api = a,
      validate_email = (\<lambda>s. if CHR ''@'' \<in> set s then SyntaxOK else NotValid ''no @-sign'')\<rparr>"

definition example_infile :: "string list list \<Rightarrow> infile" where
  "example_infile rows =
     \<lparr>in_name = ''in.csv'', in_seekable = True, in_records = map (\<lambda>r. (1, r)) rows\<rparr>"

definition resp_results :: "(string \<times> json) list \<Rightarrow> response" where
  "resp_results p = \<lparr>status_code = 200, resp_json = Some (JObj [(''results'', JObj p)])\<rparr>"

definition api_503_then_200 :: "nat \<Rightarrow> request \<Rightarrow> error + response" where
  "api_503_then_200 n r =
     (if n = 0 then Inr \<lparr>status_code = 503, resp_json = Some (JObj [])\<rparr>
      else Inr (resp_results [(''valid'', JBool True)]))"

text \<open>An API that gives the same answer to every request.\<close>

definition api_const :: "response \<Rightarrow> nat \<Rightarrow> request \<Rightarrow> error + response" where
  "api_const resp n r = Inr resp"

text \<open>A response of the shape the program writes a row for: status 200 and a dict whose
  \<^verbatim>\<open>results\<close> is a dict.\<close>

definition has_payload :: "response \<Rightarrow> bool" where
  "has_payload resp =
     (status_code resp = 200 \<and>
      (case resp_json resp of
         Some (JObj content) \<Rightarrow>
           (case map_of content ''results'' of Some (JObj payload) \<Rightarrow> True | _ \<Rightarrow> False)
       | _ \<Rightarrow> False))"

text \<open>
  What the error channel is to hold, in the words of the error taxonomy: from the precheck
  a diagnostic with line number, address and reason for each row of one field that fails
  the syntax check (rows of another number of fields are counted only), and from the
  dispatch the body of each response with status 200 on which the test for \<^verbatim>\<open>results\<close>
  fails. The request for a field is the GET to the URL that \<^verbatim>\<open>urljoin\<close> returned for it
  (\<open>projr\<close> takes it out of the result).
\<close>

fun spec_precheck_log :: "env \<Rightarrow> (nat \<times> string list) list \<Rightarrow> nat \<Rightarrow> log_entry list" where
  "spec_precheck_log E [] line_num = []"
| "spec_precheck_log E ((n, r) # rest) line_num =
     (if length r = 1 then
        (case validate_email E (r ! 0) of
           SyntaxOK \<Rightarrow> []
         | NotValid msg \<Rightarrow> [LogBadSyntax (line_num + n) (r ! 0) msg])
      else [])
     @ spec_precheck_log E rest (line_num + n)"



definition api_second_not_json :: "nat \<Rightarrow> request \<Rightarrow> error + response" where
  "api_second_not_json n r =
     (if n = 1 then Inr \<lparr>status_code = 200, resp_json = None\<rparr>
      else Inr (resp_results [(''valid'', JBool True)]))"

section \<open>Facts about the loops\<close>

lemmas effects = writerow_def eprint_def print_def sleep_def pbar_update_def writeheader_def

lemmas run_defs = processFile_def precheck_def validateRecipients_def one_address_def
  handle_response_def has_results_def mk_request_def close_files_def init_world_def
  example_env_def example_infile_def resp_results_def in_rows_def Let_def

subsection \<open>One response\<close>

lemma handle_response_sent: "sent (world_of (handle_response i resp w)) = sent w"
  by (simp add: handle_response_def effects split: option.splits sum.splits bool.splits)

lemma has_results_lacks: "(has_results content = Inr False) = lacks_results content"
  by (cases content) (auto simp add: has_results_def)

lemma handle_response_benign: "returned (handle_response i resp w) = benign resp"
proof (cases "resp_json resp")
  case None
  then show ?thesis by (simp add: handle_response_def benign_def)
next
  case (Some content)
  show ?thesis
  proof (cases "status_code resp = 200")
    case False
    with Some show ?thesis by (simp add: handle_response_def benign_def)
  next
    case True
    with Some show ?thesis
      by (cases content)
         (auto simp add: handle_response_def benign_def has_results_def
               split: option.splits sum.splits bool.splits json.splits)
  qed
qed


lemma py_setitem_email:
  "py_setitem row ''email'' (JStr i) = Inr row' \<Longrightarrow>
     length (dict_to_list row') = 8 \<and> dict_to_list row' ! 0 = JStr i"
  by (cases row) (auto simp add: dict_to_list_def fList_def update_conv')

lemma handle_response_rows:
  "out_rows (world_of (handle_response i resp w)) = out_rows w
   \<or> (\<exists>row. out_rows (world_of (handle_response i resp w)) = out_rows w @ [row]
           \<and> length row = 8 \<and> row ! 0 = JStr i)"
proof (cases "resp_json resp")
  case None
  then show ?thesis by (simp add: handle_response_def)
next
  case (Some content)
  show ?thesis
  proof (cases "status_code resp = 200")
    case False
    with Some show ?thesis by (simp add: handle_response_def effects)
  next
    case ok: True
    show ?thesis
    proof (cases "has_results content")
      case (Inl e)
      with Some ok show ?thesis by (simp add: handle_response_def)
    next
      case (Inr b)
      show ?thesis
      proof (cases b)
        case False
        with Some ok Inr show ?thesis by (simp add: handle_response_def effects)
      next
        case True
        show ?thesis
        proof (cases "py_getitem content ''results''")
          case (Inl e)
          with Some ok Inr True show ?thesis by (simp add: handle_response_def)
        next
          case g: (Inr row)
          show ?thesis
          proof (cases "py_setitem row ''email'' (JStr i)")
            case (Inl e)
            with Some ok Inr True g show ?thesis by (simp add: handle_response_def)
          next
            case s: (Inr row')
            then have "length (dict_to_list row') = 8 \<and> dict_to_list row' ! 0 = JStr i"
              by (rule py_setitem_email)
            with Some ok Inr True g s show ?thesis by (simp add: handle_response_def effects)
          qed
        qed
      qed
    qed
  qed
qed

subsection \<open>One address\<close>

lemma one_address_sent:
  "sent (world_of (one_address E apiKey i w)) =
     (case urljoin E (g_url E) i of
        Inl e \<Rightarrow> sent w
      | Inr u \<Rightarrow> sent w @ [mk_request apiKey u])"
  by (simp add: one_address_def Let_def handle_response_sent split: sum.splits)

lemma one_address_Returned:
  assumes "one_address E apiKey i w = Returned w'"
  obtains u resp where "urljoin E (g_url E) i = Inr u"
    and "api E (length (sent w)) (mk_request apiKey u) = Inr resp"
    and "handle_response i resp (w\<lparr>sent := sent w @ [mk_request apiKey u]\<rparr>) = Returned w'"
  using assms by (auto simp add: one_address_def Let_def split: sum.splits)

lemma one_address_goes:
  assumes "urljoin E (g_url E) i = Inr u"
    and "api E (length (sent w)) (mk_request apiKey u) = Inr resp"
  shows "one_address E apiKey i w
           = handle_response i resp (w\<lparr>sent := sent w @ [mk_request apiKey u]\<rparr>)"
  using assms by (simp add: one_address_def Let_def)

lemma one_address_rows:
  "out_rows (world_of (one_address E apiKey i w)) = out_rows w
   \<or> (\<exists>row. out_rows (world_of (one_address E apiKey i w)) = out_rows w @ [row]
           \<and> length row = 8 \<and> row ! 0 = JStr i)"
proof (cases "urljoin E (g_url E) i")
  case (Inl e)
  then show ?thesis by (simp add: one_address_def)
next
  case u: (Inr u)
  show ?thesis
  proof (cases "api E (length (sent w)) (mk_request apiKey u)")
    case (Inl e)
    with u show ?thesis by (simp add: one_address_def Let_def)
  next
    case (Inr resp)
    with u have "one_address E apiKey i w
           = handle_response i resp (w\<lparr>sent := sent w @ [mk_request apiKey u]\<rparr>)"
      by (rule one_address_goes)
    then show ?thesis
      using handle_response_rows [of i resp "w\<lparr>sent := sent w @ [mk_request apiKey u]\<rparr>"]
      by simp
  qed
qed

subsection \<open>The requests of the two loops\<close>

lemma address_loop_returned_sent:
  "address_loop E apiKey is w = Returned w' \<Longrightarrow>
     sent w' = sent w @ map (\<lambda>i. mk_request apiKey (projr (urljoin E (g_url E) i))) is"
proof (induction "is" arbitrary: w)
  case Nil
  then show ?case by simp
next
  case (Cons i rest)
  show ?case
  proof (cases "one_address E apiKey i w")
    case (Returned w1)
    with Cons.prems have "address_loop E apiKey rest w1 = Returned w'" by simp
    then have "sent w' = sent w1
        @ map (\<lambda>i. mk_request apiKey (projr (urljoin E (g_url E) i))) rest"
      by (rule Cons.IH)
    moreover from Returned obtain u where "urljoin E (g_url E) i = Inr u"
      by (rule one_address_Returned)
    then have "sent w1 = sent w @ [mk_request apiKey (projr (urljoin E (g_url E) i))]"
      using one_address_sent [of E apiKey i w] Returned by simp
    ultimately show ?thesis by simp
  next
    case (Raised e w1)
    with Cons.prems show ?thesis by simp
  qed
qed

lemma address_loop_prefix:
  "prefix (sent (world_of (address_loop E apiKey is w)))
     (sent w @ map (\<lambda>i. mk_request apiKey (projr (urljoin E (g_url E) i))) is)"
proof (induction "is" arbitrary: w)
  case Nil
  then show ?case by simp
next
  case (Cons i rest)
  let ?r = "mk_request apiKey (projr (urljoin E (g_url E) i))"
  have s: "sent (world_of (one_address E apiKey i w)) = sent w
         \<or> sent (world_of (one_address E apiKey i w)) = sent w @ [?r]"
    using one_address_sent [of E apiKey i w] by (cases "urljoin E (g_url E) i") simp_all
  show ?case
  proof (cases "one_address E apiKey i w")
    case (Returned w1)
    then obtain u where "urljoin E (g_url E) i = Inr u" by (rule one_address_Returned)
    then have "sent w1 = sent w @ [?r]"
      using one_address_sent [of E apiKey i w] Returned by simp
    with Cons.IH [of w1] Returned show ?thesis by simp
  next
    case (Raised e w1)
    with s show ?thesis by auto
  qed
qed

lemma address_loop_goes:
  assumes "\<forall>i\<in>set is. \<exists>u. urljoin E (g_url E) i = Inr u"
    and "\<forall>n r. \<exists>resp. api E n r = Inr resp \<and> benign resp"
  shows "returned (address_loop E apiKey is w)"
  using assms(1)
proof (induction "is" arbitrary: w)
  case Nil
  then show ?case by simp
next
  case (Cons i rest)
  then obtain u where u: "urljoin E (g_url E) i = Inr u" by auto
  from assms(2) obtain resp where
    r: "api E (length (sent w)) (mk_request apiKey u) = Inr resp" and b: "benign resp"
    by blast
  from u r have "one_address E apiKey i w
           = handle_response i resp (w\<lparr>sent := sent w @ [mk_request apiKey u]\<rparr>)"
    by (rule one_address_goes)
  with b have "returned (one_address E apiKey i w)" by (simp add: handle_response_benign)
  then obtain w1 where "one_address E apiKey i w = Returned w1"
    by (cases "one_address E apiKey i w") auto
  with Cons show ?case by simp
qed

lemma row_loop_returned_sent:
  "row_loop E apiKey rows w = Returned w' \<Longrightarrow>
     sent w' = sent w
       @ map (\<lambda>i. mk_request apiKey (projr (urljoin E (g_url E) i))) (concat rows)"
proof (induction rows arbitrary: w)
  case Nil
  then show ?case by simp
next
  case (Cons address rest)
  let ?w0 = "w\<lparr>in_pos := in_pos w + 1\<rparr>"
  show ?case
  proof (cases "address_loop E apiKey address ?w0")
    case (Returned w1)
    with Cons.prems have "row_loop E apiKey rest w1 = Returned w'" by simp
    then have "sent w' = sent w1
        @ map (\<lambda>i. mk_request apiKey (projr (urljoin E (g_url E) i))) (concat rest)"
      by (rule Cons.IH)
    moreover have "sent w1 = sent ?w0
        @ map (\<lambda>i. mk_request apiKey (projr (urljoin E (g_url E) i))) address"
      using Returned by (rule address_loop_returned_sent)
    ultimately show ?thesis by simp
  next
    case (Raised e w1)
    with Cons.prems show ?thesis by simp
  qed
qed

lemma row_loop_prefix:
  "prefix (sent (world_of (row_loop E apiKey rows w)))
     (sent w @ map (\<lambda>i. mk_request apiKey (projr (urljoin E (g_url E) i))) (concat rows))"
proof (induction rows arbitrary: w)
  case Nil
  then show ?case by simp
next
  case (Cons address rest)
  let ?w0 = "w\<lparr>in_pos := in_pos w + 1\<rparr>"
  let ?f = "\<lambda>i. mk_request apiKey (projr (urljoin E (g_url E) i))"
  show ?case
  proof (cases "address_loop E apiKey address ?w0")
    case (Returned w1)
    then have "sent w1 = sent w @ map ?f address"
      using address_loop_returned_sent [of E apiKey address ?w0 w1] by simp
    with Cons.IH [of w1] Returned show ?thesis by simp
  next
    case (Raised e w1)
    have "prefix (sent (world_of (address_loop E apiKey address ?w0)))
                 (sent ?w0 @ map ?f address)"
      by (rule address_loop_prefix)
    with Raised have "prefix (sent w1) (sent w @ map ?f address)" by simp
    then have "prefix (sent w1) ((sent w @ map ?f address) @ map ?f (concat rest))"
      by (rule prefix_prefix)
    with Raised show ?thesis by simp
  qed
qed

lemma row_loop_goes:
  assumes "\<forall>i\<in>set (concat rows). \<exists>u. urljoin E (g_url E) i = Inr u"
    and "\<forall>n r. \<exists>resp. api E n r = Inr resp \<and> benign resp"
  shows "returned (row_loop E apiKey rows w)"
  using assms(1)
proof (induction rows arbitrary: w)
  case Nil
  then show ?case by simp
next
  case (Cons address rest)
  let ?w0 = "w\<lparr>in_pos := in_pos w + 1\<rparr>"
  from Cons.prems have "\<forall>i\<in>set address. \<exists>u. urljoin E (g_url E) i = Inr u" by simp
  then have "returned (address_loop E apiKey address ?w0)"
    using assms(2) by (rule address_loop_goes)
  then obtain w1 where "address_loop E apiKey address ?w0 = Returned w1"
    by (cases "address_loop E apiKey address ?w0") auto
  with Cons show ?case by simp
qed

subsection \<open>The error channel of the two loops\<close>





subsection \<open>The rows of the two loops\<close>

lemma one_address_rows_ex:
  "\<exists>rs. out_rows (world_of (one_address E apiKey i w)) = out_rows w @ rs
      \<and> (\<forall>row\<in>set rs. length row = 8)
      \<and> subseq (map (\<lambda>row. row ! 0) rs) [JStr i]"
  using one_address_rows [of E apiKey i w] by auto

lemma address_loop_rows:
  "\<exists>rs. out_rows (world_of (address_loop E apiKey is w)) = out_rows w @ rs
      \<and> (\<forall>row\<in>set rs. length row = 8)
      \<and> subseq (map (\<lambda>row. row ! 0) rs) (map JStr is)"
proof (induction "is" arbitrary: w)
  case Nil
  then show ?case by simp
next
  case (Cons i rest)
  obtain rs1 where r1: "out_rows (world_of (one_address E apiKey i w)) = out_rows w @ rs1"
      "\<forall>row\<in>set rs1. length row = 8" "subseq (map (\<lambda>row. row ! 0) rs1) [JStr i]"
    using one_address_rows_ex by blast
  show ?case
  proof (cases "one_address E apiKey i w")
    case (Raised e w1)
    from r1(3) have "subseq (map (\<lambda>row. row ! 0) rs1 @ []) ([JStr i] @ map JStr rest)"
      by (intro list_emb_append_mono) simp_all
    with Raised r1 show ?thesis by auto
  next
    case (Returned w1)
    obtain rs2 where r2: "out_rows (world_of (address_loop E apiKey rest w1)) = out_rows w1 @ rs2"
      "\<forall>row\<in>set rs2. length row = 8" "subseq (map (\<lambda>row. row ! 0) rs2) (map JStr rest)"
      using Cons.IH by blast
    from r1(3) r2(3)
    have "subseq (map (\<lambda>row. row ! 0) rs1 @ map (\<lambda>row. row ! 0) rs2) ([JStr i] @ map JStr rest)"
      by (rule list_emb_append_mono)
    then have "subseq (map (\<lambda>row. row ! 0) (rs1 @ rs2)) (map JStr (i # rest))" by simp
    moreover have "out_rows (world_of (address_loop E apiKey (i # rest) w)) = out_rows w @ (rs1 @ rs2)"
      using Returned r1(1) r2(1) by simp
    moreover have "\<forall>row\<in>set (rs1 @ rs2). length row = 8" using r1(2) r2(2) by auto
    ultimately show ?thesis by blast
  qed
qed

lemma row_loop_rows:
  "\<exists>rs. out_rows (world_of (row_loop E apiKey rows w)) = out_rows w @ rs
      \<and> (\<forall>row\<in>set rs. length row = 8)
      \<and> subseq (map (\<lambda>row. row ! 0) rs) (map JStr (concat rows))"
proof (induction rows arbitrary: w)
  case Nil
  then show ?case by simp
next
  case (Cons address rest)
  let ?w0 = "w\<lparr>in_pos := in_pos w + 1\<rparr>"
  obtain rs1 where r1: "out_rows (world_of (address_loop E apiKey address ?w0)) = out_rows ?w0 @ rs1"
      "\<forall>row\<in>set rs1. length row = 8" "subseq (map (\<lambda>row. row ! 0) rs1) (map JStr address)"
    using address_loop_rows by blast
  show ?case
  proof (cases "address_loop E apiKey address ?w0")
    case (Raised e w1)
    from r1(3) have "subseq (map (\<lambda>row. row ! 0) rs1 @ []) (map JStr address @ map JStr (concat rest))"
      by (intro list_emb_append_mono) simp_all
    with Raised r1 show ?thesis by auto
  next
    case (Returned w1)
    obtain rs2 where r2: "out_rows (world_of (row_loop E apiKey rest w1)) = out_rows w1 @ rs2"
      "\<forall>row\<in>set rs2. length row = 8"
      "subseq (map (\<lambda>row. row ! 0) rs2) (map JStr (concat rest))"
      using Cons.IH by blast
    from r1(3) r2(3)
    have "subseq (map (\<lambda>row. row ! 0) rs1 @ map (\<lambda>row. row ! 0) rs2)
                 (map JStr address @ map JStr (concat rest))"
      by (rule list_emb_append_mono)
    then have "subseq (map (\<lambda>row. row ! 0) (rs1 @ rs2)) (map JStr (concat (address # rest)))"
      by simp
    moreover have "out_rows (world_of (row_loop E apiKey (address # rest) w)) = out_rows w @ (rs1 @ rs2)"
      using Returned r1(1) r2(1) by simp
    moreover have "\<forall>row\<in>set (rs1 @ rs2). length row = 8" using r1(2) r2(2) by auto
    ultimately show ?thesis by blast
  qed
qed

subsection \<open>Responses that carry a payload\<close>

lemma has_payload_cases:
  "has_payload resp \<Longrightarrow>
     \<exists>content payload. status_code resp = 200 \<and> resp_json resp = Some (JObj content)
        \<and> map_of content ''results'' = Some (JObj payload)"
  unfolding has_payload_def
  by (cases "resp_json resp"; simp split: json.splits option.splits)

lemma has_payload_benign: "has_payload resp \<Longrightarrow> benign resp"
proof -
  assume "has_payload resp"
  then obtain content payload where "status_code resp = 200"
      "resp_json resp = Some (JObj content)" "map_of content ''results'' = Some (JObj payload)"
    using has_payload_cases by blast
  then show ?thesis by (simp add: benign_def)
qed

lemma handle_response_payload:
  assumes "has_payload resp"
  shows "\<exists>row w'. handle_response i resp w = Returned w'
           \<and> out_rows w' = out_rows w @ [row] \<and> row ! 0 = JStr i"
proof -
  from assms obtain content payload where c: "status_code resp = 200"
      "resp_json resp = Some (JObj content)" "map_of content ''results'' = Some (JObj payload)"
    using has_payload_cases by blast
  then have "content \<noteq> []" by auto
  with c have "handle_response i resp w
      = Returned (pbar_update 1 (writerow (AList.update ''email'' (JStr i) payload) w))"
    by (simp add: handle_response_def has_results_def)
  moreover have "dict_to_list (AList.update ''email'' (JStr i) payload) ! 0 = JStr i"
    by (simp add: dict_to_list_def fList_def update_conv')
  ultimately show ?thesis by (simp add: effects)
qed

lemma address_loop_payload:
  assumes "\<forall>i\<in>set is. \<exists>u. urljoin E (g_url E) i = Inr u"
    and "\<forall>n r. \<exists>resp. api E n r = Inr resp \<and> has_payload resp"
  shows "map (\<lambda>row. row ! 0) (out_rows (world_of (address_loop E apiKey is w)))
       = map (\<lambda>row. row ! 0) (out_rows w) @ map JStr is"
  using assms(1)
proof (induction "is" arbitrary: w)
  case Nil
  then show ?case by simp
next
  case (Cons i rest)
  then obtain u where u: "urljoin E (g_url E) i = Inr u" by auto
  let ?w0 = "w\<lparr>sent := sent w @ [mk_request apiKey u]\<rparr>"
  from assms(2) obtain resp where
    r: "api E (length (sent w)) (mk_request apiKey u) = Inr resp" and p: "has_payload resp"
    by blast
  from p obtain row w1 where
    h: "handle_response i resp ?w0 = Returned w1"
       "out_rows w1 = out_rows ?w0 @ [row]" "row ! 0 = JStr i"
    using handle_response_payload by blast
  from u r have "one_address E apiKey i w = handle_response i resp ?w0"
    by (rule one_address_goes)
  with h have o: "one_address E apiKey i w = Returned w1" by simp
  have "map (\<lambda>row. row ! 0) (out_rows (world_of (address_loop E apiKey rest w1)))
       = map (\<lambda>row. row ! 0) (out_rows w1) @ map JStr rest"
    using Cons.prems by (intro Cons.IH) simp
  with o h show ?case by simp
qed

lemma row_loop_payload:
  assumes "\<forall>i\<in>set (concat rows). \<exists>u. urljoin E (g_url E) i = Inr u"
    and "\<forall>n r. \<exists>resp. api E n r = Inr resp \<and> has_payload resp"
  shows "map (\<lambda>row. row ! 0) (out_rows (world_of (row_loop E apiKey rows w)))
       = map (\<lambda>row. row ! 0) (out_rows w) @ map JStr (concat rows)"
  using assms(1)
proof (induction rows arbitrary: w)
  case Nil
  then show ?case by simp
next
  case (Cons address rest)
  let ?w0 = "w\<lparr>in_pos := in_pos w + 1\<rparr>"
  from Cons.prems have a: "\<forall>i\<in>set address. \<exists>u. urljoin E (g_url E) i = Inr u" by simp
  from assms(2) have b: "\<forall>n r. \<exists>resp. api E n r = Inr resp \<and> benign resp"
    using has_payload_benign by blast
  from a b have "returned (address_loop E apiKey address ?w0)" by (rule address_loop_goes)
  then obtain w1 where r: "address_loop E apiKey address ?w0 = Returned w1"
    by (cases "address_loop E apiKey address ?w0") auto
  have "map (\<lambda>row. row ! 0) (out_rows (world_of (address_loop E apiKey address ?w0)))
       = map (\<lambda>row. row ! 0) (out_rows ?w0) @ map JStr address"
    using a assms(2) by (rule address_loop_payload)
  with r have 1: "map (\<lambda>row. row ! 0) (out_rows w1)
       = map (\<lambda>row. row ! 0) (out_rows w) @ map JStr address"
    by simp
  have "map (\<lambda>row. row ! 0) (out_rows (world_of (row_loop E apiKey rest w1)))
       = map (\<lambda>row. row ! 0) (out_rows w1) @ map JStr (concat rest)"
    using Cons.prems by (intro Cons.IH) simp
  with r 1 show ?case by simp
qed

subsection \<open>The precheck and the whole run\<close>

lemma precheck_loop_sent: "sent (snd (snd (precheck_loop E recs ln a b w))) = sent w"
  by (induction recs arbitrary: ln a b w)
     (auto simp add: Let_def eprint_def split: verdict.splits)

lemma precheck_loop_out: "out_rows (snd (snd (precheck_loop E recs ln a b w))) = out_rows w"
  by (induction recs arbitrary: ln a b w)
     (auto simp add: Let_def eprint_def split: verdict.splits)

lemma precheck_loop_counts:
  "fst (precheck_loop E recs ln a b w) =
      a + length (filter (\<lambda>r. length r = 1 \<and> validate_email E (r ! 0) = SyntaxOK)
                    (map snd recs))
   \<and> fst (snd (precheck_loop E recs ln a b w)) =
      b + length (filter (\<lambda>r. length r \<noteq> 1 \<or> validate_email E (r ! 0) \<noteq> SyntaxOK)
                    (map snd recs))"
  by (induction recs arbitrary: ln a b w) (auto simp add: Let_def split: verdict.splits)

lemma precheck_loop_err_log:
  "err_log (snd (snd (precheck_loop E recs ln a b w)))
     = err_log w @ spec_precheck_log E recs ln"
  by (induction recs arbitrary: ln a b w)
     (auto simp add: Let_def eprint_def split: verdict.splits)

lemma precheck_sent: "sent (snd (snd (precheck E infile w))) = sent w"
  using precheck_loop_sent [of E "drop (in_pos w) (in_records infile)" 0 0 0 w]
  by (auto simp add: precheck_def eprint_def split: prod.splits)

lemma precheck_out: "out_rows (snd (snd (precheck E infile w))) = out_rows w"
  using precheck_loop_out [of E "drop (in_pos w) (in_records infile)" 0 0 0 w]
  by (auto simp add: precheck_def eprint_def split: prod.splits)

lemma precheck_in_pos: "in_pos (snd (snd (precheck E infile w))) = 0"
  by (simp add: precheck_def split: prod.splits)

lemma precheck_err_log:
  "err_log (snd (snd (precheck E infile w)))
     = err_log w @ spec_precheck_log E (drop (in_pos w) (in_records infile)) 0
       @ [LogScanned (in_name infile) (fst (precheck E infile w))
            (fst (snd (precheck E infile w)))]"
  using precheck_loop_err_log [of E "drop (in_pos w) (in_records infile)" 0 0 0 w]
  by (auto simp add: precheck_def eprint_def split: prod.splits)

lemma precheck_counts:
  "fst (precheck E infile w) =
      length (filter (\<lambda>r. length r = 1 \<and> validate_email E (r ! 0) = SyntaxOK)
                (drop (in_pos w) (in_rows infile)))
   \<and> fst (snd (precheck E infile w)) =
      length (filter (\<lambda>r. length r \<noteq> 1 \<or> validate_email E (r ! 0) \<noteq> SyntaxOK)
                (drop (in_pos w) (in_rows infile)))"
  using precheck_loop_counts [of E "drop (in_pos w) (in_records infile)" 0 0 0 w]
  by (auto simp add: precheck_def in_rows_def drop_map split: prod.splits)

lemma processFile_skip:
  "skip_precheck \<or> \<not> in_seekable infile \<Longrightarrow>
     processFile E infile url apiKey snooze skip_precheck w
       = Raised UnboundLocalError (writeheader (eprint LogSkipping w))"
  by (auto simp add: processFile_def)

lemma processFile_precheck:
  assumes "in_seekable infile" and "\<not> skip_precheck"
  shows "processFile E infile url apiKey snooze skip_precheck w =
     (case row_loop E apiKey (in_rows infile)
             ((writeheader (snd (snd (precheck E infile w))))
                \<lparr>pbar_total := fst (precheck E infile w), pbar_n := 0\<rparr>) of
        Raised e w3 \<Rightarrow> Raised e w3
      | Returned w3 \<Rightarrow> Returned (close_files (close_files w3)))"
proof -
  obtain ok bad w' where p: "precheck E infile w = (ok, bad, w')"
    by (cases "precheck E infile w") auto
  then have "in_pos w' = 0" using precheck_in_pos [of E infile w] by simp
  with assms p show ?thesis
    by (simp add: processFile_def validateRecipients_def writeheader_def)
qed

lemma processFile_precheck_sent:
  assumes "in_seekable infile" and "\<not> skip_precheck"
  shows "sent (world_of (processFile E infile url apiKey snooze skip_precheck w))
       = sent (world_of (row_loop E apiKey (in_rows infile)
             ((writeheader (snd (snd (precheck E infile w))))
                \<lparr>pbar_total := fst (precheck E infile w), pbar_n := 0\<rparr>)))"
  by (cases "row_loop E apiKey (in_rows infile)
             ((writeheader (snd (snd (precheck E infile w))))
                \<lparr>pbar_total := fst (precheck E infile w), pbar_n := 0\<rparr>)")
     (simp_all add: processFile_precheck [OF assms] close_files_def eprint_def)

lemma processFile_precheck_out:
  assumes "in_seekable infile" and "\<not> skip_precheck"
  shows "out_rows (world_of (processFile E infile url apiKey snooze skip_precheck w))
       = out_rows (world_of (row_loop E apiKey (in_rows infile)
             ((writeheader (snd (snd (precheck E infile w))))
                \<lparr>pbar_total := fst (precheck E infile w), pbar_n := 0\<rparr>)))"
  by (cases "row_loop E apiKey (in_rows infile)
             ((writeheader (snd (snd (precheck E infile w))))
                \<lparr>pbar_total := fst (precheck E infile w), pbar_n := 0\<rparr>)")
     (simp_all add: processFile_precheck [OF assms] close_files_def eprint_def)

lemma processFile_precheck_returned:
  assumes "in_seekable infile" and "\<not> skip_precheck"
  shows "returned (processFile E infile url apiKey snooze skip_precheck w)
       = returned (row_loop E apiKey (in_rows infile)
             ((writeheader (snd (snd (precheck E infile w))))
                \<lparr>pbar_total := fst (precheck E infile w), pbar_n := 0\<rparr>))"
  by (cases "row_loop E apiKey (in_rows infile)
             ((writeheader (snd (snd (precheck E infile w))))
                \<lparr>pbar_total := fst (precheck E infile w), pbar_n := 0\<rparr>)")
     (simp_all add: processFile_precheck [OF assms])

lemma processFile_rows:
  "\<exists>rs. out_rows (world_of (processFile E infile url apiKey snooze skip_precheck w))
          = out_rows w @ header_row # rs
      \<and> (\<forall>row\<in>set rs. length row = 8)
      \<and> subseq (map (\<lambda>row. row ! 0) rs) (map JStr (concat (in_rows infile)))"
proof (cases "in_seekable infile \<and> \<not> skip_precheck")
  case False
  then have "processFile E infile url apiKey snooze skip_precheck w
       = Raised UnboundLocalError (writeheader (eprint LogSkipping w))"
    by (intro processFile_skip) auto
  then show ?thesis by (simp add: effects)
next
  case True
  let ?w1 = "(writeheader (snd (snd (precheck E infile w))))
               \<lparr>pbar_total := fst (precheck E infile w), pbar_n := 0\<rparr>"
  let ?run = "row_loop E apiKey (in_rows infile) ?w1"
  have same: "out_rows (world_of (processFile E infile url apiKey snooze skip_precheck w))
                = out_rows (world_of ?run)"
    using True by (intro processFile_precheck_out) auto
  have w1: "out_rows ?w1 = out_rows w @ [header_row]"
    by (simp add: writeheader_def precheck_out)
  obtain rs where "out_rows (world_of ?run) = out_rows ?w1 @ rs"
      "\<forall>row\<in>set rs. length row = 8"
      "subseq (map (\<lambda>row. row ! 0) rs) (map JStr (concat (in_rows infile)))"
    using row_loop_rows by blast
  with same w1 show ?thesis by auto
qed

lemma percent_encode_example: "spec_percent_encode ''a@example.com'' = ''a%40example.com''"
  by (simp add: spec_percent_encode_def unreserved_def hex_digit_def)

lemma filter_blank_split:
  "length (filter (\<lambda>r. length r \<noteq> 1 \<or> Q r) rows)
     = length (filter (\<lambda>r. r = []) rows)
       + length (filter (\<lambda>r. r \<noteq> [] \<and> (length r \<noteq> 1 \<or> Q r)) rows)"
  by (induction rows) auto

lemma concat_nonblank: "concat (filter (\<lambda>address. address \<noteq> []) rows) = concat rows"
  by (induction rows) auto

section \<open>The claims\<close>

text \<open>
  C1. The claim: an address whose request gets a non-200 status is logged, waited for and
  asked again, and gets its row once a 200 answer with a payload comes. The program prints
  the status and \<^verbatim>\<open>Snoozing before trying again\<close>, sleeps 10, and goes on to the next
  address: with one address, a first answer 503 and every later answer a 200 with a
  payload, it sends one request and writes the header only.
\<close>

theorem C1_non200_not_retried:
  "processFile (example_env api_503_then_200) (example_infile [[''a@example.com'']])
       (g_url (example_env api_503_then_200)) [] 10 False init_world
   = Returned
      \<lparr>in_pos = 1, out_rows = [header_row],
       err_log = [LogScanned ''in.csv'' 1 0, LogDone, LogDone],
       std_out = [PrintStatus 503, PrintSnoozing], slept = [10],
       sent = [\<lparr>req_method = ''GET'',
                  req_url = ''https://api.sparkpost.com/api/v1/recipient-validation/single/a@example.com'',
                  req_headers = [(''Authorization'', []), (''Accept'', ''application/json'')]\<rparr>],
       pbar_total = 1, pbar_n = 0, in_closed = True, out_closed = True\<rparr>"
  by (simp add: run_defs effects api_503_then_200_def)

text \<open>
  C2. The claim: when the precheck is skipped (input not seekable, or the flag set), the
  skip is logged and every address is still dispatched. The program logs the skip, writes
  the header and then reads the local variable \<^verbatim>\<open>count_ok\<close>, which only the precheck
  branch assigns: \<^verbatim>\<open>UnboundLocalError\<close> is raised before any request.
\<close>

theorem C2_skip_raises:
  "skip_precheck \<or> \<not> in_seekable infile \<Longrightarrow>
     processFile E infile url apiKey snooze skip_precheck w
       = Raised UnboundLocalError (writeheader (eprint LogSkipping w))"
  by (auto simp add: processFile_def)

theorem C2_skip_raises_witness:
  "processFile (example_env api_503_then_200) (example_infile [[''a@example.com'']])
       [] [] 10 True init_world
     = Raised UnboundLocalError (writeheader (eprint LogSkipping init_world))
   \<and> sent (writeheader (eprint LogSkipping init_world)) = []"
  using C2_skip_raises [of True "example_infile [[''a@example.com'']]"
          "example_env api_503_then_200" "[]" "[]" 10 init_world]
  by (simp add: effects init_world_def)




text \<open>
  C4. The claim: every row written has a non-empty \<^verbatim>\<open>email\<close> field, equal to the address
  queried. The field is the address queried, and so it is empty when the input field is.
  What holds: for a field \<open>i\<close> the program sends the GET to the URL that \<^verbatim>\<open>urljoin\<close> returns
  for \<open>i\<close> (nothing when \<^verbatim>\<open>urljoin\<close> raises) and writes no row or one row of eight cells
  whose first cell is \<open>i\<close>, empty exactly when \<open>i\<close> is; and over a whole run the output is
  the header followed by rows whose first cells are, in order, among the fields of the
  input.
\<close>

theorem C4_email_is_queried_address:
  "sent (world_of (one_address E apiKey i w))
     = (case urljoin E (g_url E) i of
          Inl e \<Rightarrow> sent w
        | Inr u \<Rightarrow> sent w @ [\<lparr>req_method = ''GET'', req_url = u,
                        req_headers = [(''Authorization'', apiKey),
                                       (''Accept'', ''application/json'')]\<rparr>])
   \<and> (out_rows (world_of (one_address E apiKey i w)) = out_rows w
      \<or> (\<exists>row. out_rows (world_of (one_address E apiKey i w)) = out_rows w @ [row]
           \<and> length row = 8 \<and> row ! 0 = JStr i \<and> (row ! 0 = JStr []) = (i = [])))
   \<and> (\<exists>rs. out_rows (world_of (processFile E infile url apiKey snooze skip_precheck w))
              = out_rows w @ header_row # rs
          \<and> subseq (map (\<lambda>row. row ! 0) rs) (map JStr (concat (in_rows infile))))"
proof -
  have "out_rows (world_of (one_address E apiKey i w)) = out_rows w
      \<or> (\<exists>row. out_rows (world_of (one_address E apiKey i w)) = out_rows w @ [row]
           \<and> length row = 8 \<and> row ! 0 = JStr i \<and> (row ! 0 = JStr []) = (i = []))"
    using one_address_rows [of E apiKey i w] by auto
  moreover have "sent (world_of (one_address E apiKey i w))
     = (case urljoin E (g_url E) i of
          Inl e \<Rightarrow> sent w
        | Inr u \<Rightarrow> sent w @ [\<lparr>req_method = ''GET'', req_url = u,
                        req_headers = [(''Authorization'', apiKey),
                                       (''Accept'', ''application/json'')]\<rparr>])"
    using one_address_sent [of E apiKey i w]
    by (cases "urljoin E (g_url E) i") (simp_all add: mk_request_def)
  ultimately show ?thesis
    using processFile_rows [of E infile url apiKey snooze skip_precheck w] by blast
qed

text \<open>
  C4, as stated: the input row with one empty field (the line \<^verbatim>\<open>""\<close>) is queried, and
  on a 200 answer with a payload its row is written with an empty \<^verbatim>\<open>email\<close> cell.
\<close>

theorem C4_empty_address_row:
  "processFile (example_env (api_const (resp_results [(''valid'', JBool False)])))
      (example_infile [['''']]) [] [] 10 False init_world
     = Returned
        \<lparr>in_pos = 1,
         out_rows = [header_row,
            [JStr '''', JBool False, JStr '''', JStr '''', JStr '''', JStr '''', JStr '''', JStr '''']],
         err_log = [LogBadSyntax 1 '''' ''no @-sign'', LogScanned ''in.csv'' 0 1, LogDone, LogDone],
         std_out = [], slept = [],
         sent = [\<lparr>req_method = ''GET'',
                  req_url = ''https://api.sparkpost.com/api/v1/recipient-validation/single/'',
                  req_headers = [(''Authorization'', []), (''Accept'', ''application/json'')]\<rparr>],
         pbar_total = 0, pbar_n = 1, in_closed = True, out_closed = True\<rparr>"
  by (simp add: run_defs effects api_const_def dict_to_list_def fList_def)

text \<open>
  C5. The claim: a response with status 200 whose body lacks the key \<^verbatim>\<open>results\<close> is
  logged, gives no row and no retry, and advances the progress bar. What holds: this is so
  for every body on which the test of line 30 is false, that is a dict without the key, a
  falsy body (\<^verbatim>\<open>null\<close>, \<^verbatim>\<open>false\<close>, \<^verbatim>\<open>0\<close>, an empty string, list or dict), a list without the
  element \<^verbatim>\<open>'results'\<close> and a string without the substring \<^verbatim>\<open>results\<close>: the world after the
  address differs from the one before by the one request, the logged body and the progress
  bar advanced by one, and the loop goes on with the next address.
\<close>

theorem C5_no_results_key:
  assumes "urljoin E (g_url E) i = Inr u"
    and "api E (length (sent w))
           \<lparr>req_method = ''GET'', req_url = u,
            req_headers = [(''Authorization'', apiKey), (''Accept'', ''application/json'')]\<rparr>
         = Inr resp"
    and "status_code resp = 200"
    and "resp_json resp = Some content"
    and "lacks_results content"
  shows "one_address E apiKey i w =
           Returned (w\<lparr>sent := sent w @ [\<lparr>req_method = ''GET'', req_url = u,
                          req_headers = [(''Authorization'', apiKey),
                                         (''Accept'', ''application/json'')]\<rparr>],
                       err_log := err_log w @ [LogErrorResponse content],
                       pbar_n := pbar_n w + 1\<rparr>)
       \<and> address_loop E apiKey (i # rest) w =
           address_loop E apiKey rest
             (w\<lparr>sent := sent w @ [\<lparr>req_method = ''GET'', req_url = u,
                          req_headers = [(''Authorization'', apiKey),
                                         (''Accept'', ''application/json'')]\<rparr>],
                err_log := err_log w @ [LogErrorResponse content],
                pbar_n := pbar_n w + 1\<rparr>)"
proof -
  from assms(5) have "has_results content = Inr False" by (simp add: has_results_lacks)
  with assms(1-4) have "one_address E apiKey i w =
           Returned (w\<lparr>sent := sent w @ [\<lparr>req_method = ''GET'', req_url = u,
                          req_headers = [(''Authorization'', apiKey),
                                         (''Accept'', ''application/json'')]\<rparr>],
                       err_log := err_log w @ [LogErrorResponse content],
                       pbar_n := pbar_n w + 1\<rparr>)"
    by (simp add: one_address_def Let_def mk_request_def handle_response_def effects)
  then show ?thesis by simp
qed

theorem C5_no_results_key_witness:
  "lacks_results (JObj [(''errors'', JArr [JStr ''Forbidden''])])
   \<and> lacks_results JNull
   \<and> one_address (example_env (api_const \<lparr>status_code = 200,
        resp_json = Some (JObj [(''errors'', JArr [JStr ''Forbidden''])])\<rparr>)) [] ''a@example.com''
      init_world
    = Returned (init_world\<lparr>
        sent := [\<lparr>req_method = ''GET'',
                  req_url = ''https://api.sparkpost.com/api/v1/recipient-validation/single/a@example.com'',
                  req_headers = [(''Authorization'', []), (''Accept'', ''application/json'')]\<rparr>],
        err_log := [LogErrorResponse (JObj [(''errors'', JArr [JStr ''Forbidden''])])],
        pbar_n := 1\<rparr>)"
proof -
  let ?resp = "\<lparr>status_code = 200,
        resp_json = Some (JObj [(''errors'', JArr [JStr ''Forbidden''])])\<rparr>"
  let ?E = "example_env (api_const ?resp)"
  let ?u = "''https://api.sparkpost.com/api/v1/recipient-validation/single/a@example.com''"
  have 1: "urljoin ?E (g_url ?E) ''a@example.com'' = Inr ?u" by (simp add: example_env_def)
  have 2: "api ?E (length (sent init_world))
           \<lparr>req_method = ''GET'', req_url = ?u,
            req_headers = [(''Authorization'', []), (''Accept'', ''application/json'')]\<rparr>
         = Inr ?resp"
    by (simp add: example_env_def api_const_def)
  have 3: "status_code ?resp = 200" by simp
  have 4: "resp_json ?resp = Some (JObj [(''errors'', JArr [JStr ''Forbidden''])])" by simp
  have 5: "lacks_results (JObj [(''errors'', JArr [JStr ''Forbidden''])])" by simp
  from C5_no_results_key [OF 1 2 3 4 5, of "[]"] 5 show ?thesis
    by (simp add: init_world_def mk_request_def)
qed

text \<open>
  C5, as stated: the bodies \<^verbatim>\<open>true\<close> and \<^verbatim>\<open>["results"]\<close> have no key \<^verbatim>\<open>results\<close>, and with
  status 200 they make lines 30-31 raise \<^verbatim>\<open>TypeError\<close>: nothing is logged, the progress bar
  stays, and the run ends there.
\<close>

theorem C5_truthy_body_raises:
  "processFile (example_env (api_const \<lparr>status_code = 200, resp_json = Some (JBool True)\<rparr>))
      (example_infile [[''a@example.com'']]) [] [] 10 False init_world
     = Raised TypeError
        \<lparr>in_pos = 1, out_rows = [header_row], err_log = [LogScanned ''in.csv'' 1 0],
         std_out = [], slept = [],
         sent = [\<lparr>req_method = ''GET'',
                  req_url = ''https://api.sparkpost.com/api/v1/recipient-validation/single/a@example.com'',
                  req_headers = [(''Authorization'', []), (''Accept'', ''application/json'')]\<rparr>],
         pbar_total = 1, pbar_n = 0, in_closed = False, out_closed = False\<rparr>
   \<and> \<not> returned (processFile (example_env (api_const
          \<lparr>status_code = 200, resp_json = Some (JArr [JStr ''results''])\<rparr>))
      (example_infile [[''a@example.com'']]) [] [] 10 False init_world)"
  by (simp add: run_defs effects api_const_def)

text \<open>
  C6. The claim: one header row first, then for each payload its fields of the fixed
  columns verbatim, the empty string for the columns it lacks, and nothing of its other
  fields. A payload field \<^verbatim>\<open>email\<close> is not written: line 32 replaces it with the address
  queried. What holds: the output of a run is what was there, the header row, then rows of
  eight cells; and a response with status 200 and a dict under \<^verbatim>\<open>results\<close> gives the row
  whose \<^verbatim>\<open>email\<close> cell is the address queried and whose other cells are the payload's value
  for the column, or the empty string without one. Cells are the values handed to the CSV
  writer.
\<close>

theorem C6_header_and_columns:
  assumes "status_code resp = 200"
    and "resp_json resp = Some (JObj content)"
    and "map_of content ''results'' = Some (JObj payload)"
  shows "(\<exists>rs. out_rows (world_of (processFile E infile url apiKey snooze skip_precheck w))
              = out_rows w @ header_row # rs
          \<and> (\<forall>row\<in>set rs. length row = 8)
          \<and> subseq (map (\<lambda>row. row ! 0) rs) (map JStr (concat (in_rows infile))))
     \<and> header_row = [JStr ''email'', JStr ''valid'', JStr ''result'', JStr ''reason'',
          JStr ''is_role'', JStr ''is_disposable'', JStr ''is_free'', JStr ''did_you_mean'']
     \<and> handle_response i resp w0 =
          Returned (pbar_update 1 (w0\<lparr>out_rows := out_rows w0 @
            [map (\<lambda>key. if key = ''email'' then JStr i
                         else case map_of payload key of None \<Rightarrow> JStr '''' | Some v \<Rightarrow> v)
                 fList]\<rparr>))"
proof -
  have "content \<noteq> []" using assms(3) by auto
  then have "handle_response i resp w0 =
          Returned (pbar_update 1 (w0\<lparr>out_rows := out_rows w0 @
            [map (\<lambda>key. if key = ''email'' then JStr i
                         else case map_of payload key of None \<Rightarrow> JStr '''' | Some v \<Rightarrow> v)
                 fList]\<rparr>))"
    using assms
    by (simp add: handle_response_def has_results_def effects dict_to_list_def update_conv'
          fList_def)
  moreover have "header_row = [JStr ''email'', JStr ''valid'', JStr ''result'', JStr ''reason'',
          JStr ''is_role'', JStr ''is_disposable'', JStr ''is_free'', JStr ''did_you_mean'']"
    by (simp add: header_row_def fList_def)
  ultimately show ?thesis
    using processFile_rows [of E infile url apiKey snooze skip_precheck w] by blast
qed

theorem C6_header_and_columns_witness:
  "handle_response ''a@example.com''
       (resp_results [(''valid'', JBool True), (''delivery_confidence'', JNum 95),
                      (''is_free'', JBool False)]) init_world
     = Returned (init_world\<lparr>out_rows :=
          [[JStr ''a@example.com'', JBool True, JStr '''', JStr '''', JStr '''', JStr '''',
            JBool False, JStr '''']], pbar_n := 1\<rparr>)
   \<and> out_rows (world_of (processFile (example_env (api_const (resp_results
          [(''valid'', JBool True), (''delivery_confidence'', JNum 95), (''is_free'', JBool False)])))
        (example_infile [[''a@example.com'']]) [] [] 10 False init_world))
     = [header_row, [JStr ''a@example.com'', JBool True, JStr '''', JStr '''', JStr '''', JStr '''',
            JBool False, JStr '''']]"
  using C6_header_and_columns [of "resp_results [(''valid'', JBool True),
          (''delivery_confidence'', JNum 95), (''is_free'', JBool False)]"
        "[(''results'', JObj [(''valid'', JBool True), (''delivery_confidence'', JNum 95),
          (''is_free'', JBool False)])]"
        "[(''valid'', JBool True), (''delivery_confidence'', JNum 95), (''is_free'', JBool False)]"
        "example_env (api_const (resp_results
          [(''valid'', JBool True), (''delivery_confidence'', JNum 95), (''is_free'', JBool False)]))"
        "example_infile [[''a@example.com'']]" "[]" "[]" 10 False init_world
        "''a@example.com''" init_world]
  by (simp add: run_defs effects api_const_def dict_to_list_def fList_def)

text \<open>
  C6, as stated: a payload with the field \<^verbatim>\<open>email\<close>, one of the fixed columns, does not
  get that field into the row; the cell holds the address queried.
\<close>

theorem C6_payload_email_overwritten:
  "out_rows (world_of (handle_response ''a@example.com''
       (resp_results [(''email'', JStr ''b@example.com''), (''valid'', JBool True)]) init_world))
     = [[JStr ''a@example.com'', JBool True, JStr '''', JStr '''', JStr '''', JStr '''',
         JStr '''', JStr '''']]
   \<and> JStr ''b@example.com'' \<notin> set (last (out_rows (world_of (handle_response ''a@example.com''
       (resp_results [(''email'', JStr ''b@example.com''), (''valid'', JBool True)]) init_world))))"
  by (simp add: run_defs effects dict_to_list_def fList_def)

text \<open>
  C7. The claim: after the precheck the input is rewound and a request is submitted for
  every address, the bad ones included. What holds, on a seekable input with the precheck
  enabled and from any read position: the precheck leaves the input at its start, and the
  requests of the run are, in input order, the GET requests to the URLs of the fields of
  all the rows, whatever the syntax checker said of them, up to the step that raises:
  always an initial part of that list, the whole list whenever the run returns, and the run
  returns when \<^verbatim>\<open>urljoin\<close> returns a URL for every field and every request is answered by a
  response the program takes without raising.
\<close>

theorem C7_requests_until_raise:
  assumes "in_seekable infile" and "\<not> skip_precheck"
  shows "in_pos (snd (snd (precheck E infile w))) = 0
     \<and> prefix (sent (world_of (processFile E infile url apiKey snooze skip_precheck w)))
         (sent w @ map (\<lambda>i. \<lparr>req_method = ''GET'', req_url = projr (urljoin E (g_url E) i),
                              req_headers = [(''Authorization'', apiKey),
                                             (''Accept'', ''application/json'')]\<rparr>)
                     (concat (in_rows infile)))
     \<and> (returned (processFile E infile url apiKey snooze skip_precheck w) \<longrightarrow>
          sent (world_of (processFile E infile url apiKey snooze skip_precheck w))
            = sent w @ map (\<lambda>i. \<lparr>req_method = ''GET'', req_url = projr (urljoin E (g_url E) i),
                                 req_headers = [(''Authorization'', apiKey),
                                                (''Accept'', ''application/json'')]\<rparr>)
                        (concat (in_rows infile)))
     \<and> ((\<forall>i\<in>set (concat (in_rows infile)). \<exists>u. urljoin E (g_url E) i = Inr u)
          \<and> (\<forall>n r. \<exists>resp. api E n r = Inr resp \<and> benign resp) \<longrightarrow>
          returned (processFile E infile url apiKey snooze skip_precheck w))"
proof -
  let ?P = "processFile E infile url apiKey snooze skip_precheck w"
  let ?w1 = "(writeheader (snd (snd (precheck E infile w))))
               \<lparr>pbar_total := fst (precheck E infile w), pbar_n := 0\<rparr>"
  let ?run = "row_loop E apiKey (in_rows infile) ?w1"
  let ?f = "\<lambda>i. \<lparr>req_method = ''GET'', req_url = projr (urljoin E (g_url E) i),
                  req_headers = [(''Authorization'', apiKey),
                                 (''Accept'', ''application/json'')]\<rparr>"
  have f: "(\<lambda>i. mk_request apiKey (projr (urljoin E (g_url E) i))) = ?f"
    by (simp add: mk_request_def)
  have w1: "sent ?w1 = sent w" by (simp add: writeheader_def precheck_sent)
  have same: "sent (world_of ?P) = sent (world_of ?run)"
    using assms by (rule processFile_precheck_sent)
  have ret: "returned ?P = returned ?run"
    using assms by (rule processFile_precheck_returned)
  have "prefix (sent (world_of ?run)) (sent ?w1 @ map ?f (concat (in_rows infile)))"
    using row_loop_prefix [of E apiKey "in_rows infile" ?w1] by (simp only: f)
  then have 1: "prefix (sent (world_of ?P)) (sent w @ map ?f (concat (in_rows infile)))"
    by (simp only: same w1)
  have 2: "sent (world_of ?P) = sent w @ map ?f (concat (in_rows infile))"
    if "returned ?P"
  proof -
    from that ret obtain w3 where r: "?run = Returned w3" by (cases ?run) auto
    then have "sent w3 = sent ?w1 @ map ?f (concat (in_rows infile))"
      using row_loop_returned_sent [of E apiKey "in_rows infile" ?w1 w3] by (simp only: f)
    with r show ?thesis by (simp only: same w1 world_of.simps)
  qed
  have 3: "returned ?P"
    if "\<forall>i\<in>set (concat (in_rows infile)). \<exists>u. urljoin E (g_url E) i = Inr u"
      and "\<forall>n r. \<exists>resp. api E n r = Inr resp \<and> benign resp"
    using row_loop_goes [OF that, of apiKey ?w1] ret by simp
  have 0: "in_pos (snd (snd (precheck E infile w))) = 0" by (rule precheck_in_pos)
  from 0 1 2 3 show ?thesis by blast
qed

theorem C7_requests_until_raise_witness:
  "in_seekable (example_infile [[''a@example.com''], [''not-an-address'']])
   \<and> fst (snd (precheck (example_env (api_const (resp_results [])))
        (example_infile [[''a@example.com''], [''not-an-address'']]) init_world)) = 1
   \<and> returned (processFile (example_env (api_const (resp_results [])))
        (example_infile [[''a@example.com''], [''not-an-address'']]) [] [] 10 False init_world)
   \<and> sent (world_of (processFile (example_env (api_const (resp_results [])))
        (example_infile [[''a@example.com''], [''not-an-address'']]) [] [] 10 False init_world))
      = [\<lparr>req_method = ''GET'',
          req_url = ''https://api.sparkpost.com/api/v1/recipient-validation/single/a@example.com'',
          req_headers = [(''Authorization'', []), (''Accept'', ''application/json'')]\<rparr>,
         \<lparr>req_method = ''GET'',
          req_url = ''https://api.sparkpost.com/api/v1/recipient-validation/single/not-an-address'',
          req_headers = [(''Authorization'', []), (''Accept'', ''application/json'')]\<rparr>]"
proof -
  let ?E = "example_env (api_const (resp_results []))"
  let ?F = "example_infile [[''a@example.com''], [''not-an-address'']]"
  have s: "in_seekable ?F" by (simp add: example_infile_def)
  have n: "\<not> False" by simp
  have j: "\<forall>i\<in>set (concat (in_rows ?F)). \<exists>u. urljoin ?E (g_url ?E) i = Inr u"
    by (simp add: example_env_def)
  have a: "\<forall>n r. \<exists>resp. api ?E n r = Inr resp \<and> benign resp"
    by (simp add: example_env_def api_const_def benign_def resp_results_def)
  note t = C7_requests_until_raise [OF s n, of ?E init_world "[]" "[]" 10]
  from t j a have r: "returned (processFile ?E ?F [] [] 10 False init_world)" by blast
  with t have "sent (world_of (processFile ?E ?F [] [] 10 False init_world))
      = sent init_world @ map (\<lambda>i. \<lparr>req_method = ''GET'',
            req_url = projr (urljoin ?E (g_url ?E) i),
            req_headers = [(''Authorization'', []), (''Accept'', ''application/json'')]\<rparr>)
          (concat (in_rows ?F))"
    by blast
  moreover have "sent init_world = []" by (simp add: init_world_def)
  moreover have "map (\<lambda>i. \<lparr>req_method = ''GET'',
            req_url = projr (urljoin ?E (g_url ?E) i),
            req_headers = [(''Authorization'', []), (''Accept'', ''application/json'')]\<rparr>)
          (concat (in_rows ?F))
      = [\<lparr>req_method = ''GET'',
          req_url = ''https://api.sparkpost.com/api/v1/recipient-validation/single/a@example.com'',
          req_headers = [(''Authorization'', []), (''Accept'', ''application/json'')]\<rparr>,
         \<lparr>req_method = ''GET'',
          req_url = ''https://api.sparkpost.com/api/v1/recipient-validation/single/not-an-address'',
          req_headers = [(''Authorization'', []), (''Accept'', ''application/json'')]\<rparr>]"
    by (simp add: example_env_def example_infile_def in_rows_def)
  moreover have "fst (snd (precheck ?E ?F init_world)) = 1"
    by (simp add: precheck_def example_env_def example_infile_def init_world_def eprint_def
          Let_def)
  ultimately show ?thesis using s r by (simp only: append_Nil simp_thms)
qed

text \<open>
  C7, as stated: with two rows and a first answer that is not JSON, the run raises
  after the first request and the second address is never submitted.
\<close>

theorem C7_raise_stops_dispatch:
  "processFile (example_env (api_const \<lparr>status_code = 503, resp_json = None\<rparr>))
      (example_infile [[''a@example.com''], [''b@example.com'']]) [] [] 10 False init_world
     = Raised JSONDecodeError
        \<lparr>in_pos = 1, out_rows = [header_row], err_log = [LogScanned ''in.csv'' 2 0],
         std_out = [], slept = [],
         sent = [\<lparr>req_method = ''GET'',
                  req_url = ''https://api.sparkpost.com/api/v1/recipient-validation/single/a@example.com'',
                  req_headers = [(''Authorization'', []), (''Accept'', ''application/json'')]\<rparr>],
         pbar_total = 2, pbar_n = 0, in_closed = False, out_closed = False\<rparr>"
  by (simp add: run_defs effects api_const_def)

text \<open>
  C8. The precheck of an input read from its start counts as ok the rows of one field that
  passes the syntax check and as bad every other row (not exactly one field, or a field
  that fails the check); when every row is of the first kind, ok is the number of rows and
  bad is 0. The two counts are what the summary logged last reports.
\<close>

theorem C8_precheck_counts:
  assumes "in_pos w = 0"
  shows "fst (precheck E infile w)
           = length (filter (\<lambda>r. length r = 1 \<and> validate_email E (r ! 0) = SyntaxOK)
                       (in_rows infile))
     \<and> fst (snd (precheck E infile w))
           = length (filter (\<lambda>r. length r \<noteq> 1 \<or> validate_email E (r ! 0) \<noteq> SyntaxOK)
                       (in_rows infile))
     \<and> ((\<forall>r\<in>set (in_rows infile). length r = 1 \<and> validate_email E (r ! 0) = SyntaxOK) \<longrightarrow>
          fst (precheck E infile w) = length (in_rows infile)
        \<and> fst (snd (precheck E infile w)) = 0)
     \<and> last (err_log (snd (snd (precheck E infile w))))
           = LogScanned (in_name infile) (fst (precheck E infile w))
               (fst (snd (precheck E infile w)))"
proof -
  let ?rows = "in_rows infile"
  have c: "fst (precheck E infile w)
        = length (filter (\<lambda>r. length r = 1 \<and> validate_email E (r ! 0) = SyntaxOK) ?rows)"
      "fst (snd (precheck E infile w))
        = length (filter (\<lambda>r. length r \<noteq> 1 \<or> validate_email E (r ! 0) \<noteq> SyntaxOK) ?rows)"
    using precheck_counts [of E infile w] assms by simp_all
  have all: "fst (precheck E infile w) = length ?rows \<and> fst (snd (precheck E infile w)) = 0"
    if "\<forall>r\<in>set ?rows. length r = 1 \<and> validate_email E (r ! 0) = SyntaxOK"
    using that c by (simp add: filter_id_conv filter_empty_conv)
  have l: "last (err_log (snd (snd (precheck E infile w))))
           = LogScanned (in_name infile) (fst (precheck E infile w))
               (fst (snd (precheck E infile w)))"
    by (simp add: precheck_err_log)
  from c all l show ?thesis by blast
qed

theorem C8_precheck_counts_witness:
  "in_pos init_world = 0
   \<and> list_all (\<lambda>r. length r = 1
         \<and> validate_email (example_env (api_const (resp_results []))) (r ! 0) = SyntaxOK)
       [[''a@example.com''], [''b@example.com'']]
   \<and> fst (precheck (example_env (api_const (resp_results [])))
           (example_infile [[''a@example.com''], [''b@example.com'']]) init_world) = 2
   \<and> fst (snd (precheck (example_env (api_const (resp_results [])))
           (example_infile [[''a@example.com''], [''b@example.com'']]) init_world)) = 0"
  using C8_precheck_counts [of init_world "example_env (api_const (resp_results []))"
          "example_infile [[''a@example.com''], [''b@example.com'']]"]
  by (simp add: example_infile_def example_env_def init_world_def in_rows_def)

text \<open>
  C9. The claim: the request is a GET to the base endpoint joined with the percent-encoded
  address, with the two headers. The program joins the base with the address as read.
  What holds: each address for which \<^verbatim>\<open>urljoin\<close> returns gets one request, a GET to
  \<^verbatim>\<open>urljoin(url, i)\<close> with the headers \<^verbatim>\<open>Authorization\<close>, the API key, and
  \<^verbatim>\<open>Accept: application/json\<close>; when \<^verbatim>\<open>urljoin\<close> raises, none.
\<close>

theorem C9_request_shape:
  "sent (world_of (one_address E apiKey i w))
     = (case urljoin E (g_url E) i of
          Inl e \<Rightarrow> sent w
        | Inr u \<Rightarrow> sent w @ [\<lparr>req_method = ''GET'', req_url = u,
                        req_headers = [(''Authorization'', apiKey),
                                       (''Accept'', ''application/json'')]\<rparr>])"
  using one_address_sent [of E apiKey i w]
  by (cases "urljoin E (g_url E) i") (simp_all add: mk_request_def)

text \<open>
  C9, as stated: for the address \<^verbatim>\<open>a@example.com\<close> the URL of the request is the base
  followed by the address as it is, and differs from the base joined with the
  percent-encoded address.
\<close>

theorem C9_address_not_percent_encoded:
  "req_url (last (sent (world_of (one_address (example_env (api_const (resp_results [])))
        [] ''a@example.com'' init_world))))
     = ''https://api.sparkpost.com/api/v1/recipient-validation/single/a@example.com''
   \<and> urljoin (example_env (api_const (resp_results [])))
         (g_url (example_env (api_const (resp_results []))))
         (spec_percent_encode ''a@example.com'')
     = Inr ''https://api.sparkpost.com/api/v1/recipient-validation/single/a%40example.com''
   \<and> Inr (req_url (last (sent (world_of (one_address (example_env (api_const (resp_results [])))
        [] ''a@example.com'' init_world)))))
     \<noteq> urljoin (example_env (api_const (resp_results [])))
         (g_url (example_env (api_const (resp_results []))))
         (spec_percent_encode ''a@example.com'')"
  by (simp add: run_defs effects api_const_def percent_encode_example)

text \<open>
  C10. The claim: a row of \<open>k\<close> fields gets \<open>k\<close> requests and a blank row none, though the
  precheck counts it as bad. What holds, on a seekable input with the precheck enabled,
  when \<^verbatim>\<open>urljoin\<close> returns a URL for every field and every request is answered by a
  response the program takes without raising: the requests of the run are, row after row,
  one GET for each field of the row in order, so as many as there are fields in all; the
  rows without fields can be left out without changing the requests, nor the output rows,
  of which there is one for each field when every response carries a payload; and the bad
  count of the precheck is the number of rows without fields plus the number of the other
  bad rows.
\<close>

theorem C10_one_request_per_field:
  assumes "in_seekable infile" and "\<not> skip_precheck"
    and "\<forall>i\<in>set (concat (in_rows infile)). \<exists>u. urljoin E (g_url E) i = Inr u"
    and "\<forall>n r. \<exists>resp. api E n r = Inr resp \<and> benign resp"
  shows "returned (processFile E infile url apiKey snooze skip_precheck w)
     \<and> sent (world_of (processFile E infile url apiKey snooze skip_precheck w))
         = sent w @ concat (map (\<lambda>address.
               map (\<lambda>i. \<lparr>req_method = ''GET'', req_url = projr (urljoin E (g_url E) i),
                          req_headers = [(''Authorization'', apiKey),
                                         (''Accept'', ''application/json'')]\<rparr>) address)
             (in_rows infile))
     \<and> length (sent (world_of (processFile E infile url apiKey snooze skip_precheck w)))
         = length (sent w) + sum_list (map length (in_rows infile))
     \<and> sent (world_of (processFile E infile url apiKey snooze skip_precheck w))
         = sent w @ map (\<lambda>i. \<lparr>req_method = ''GET'', req_url = projr (urljoin E (g_url E) i),
                              req_headers = [(''Authorization'', apiKey),
                                             (''Accept'', ''application/json'')]\<rparr>)
             (concat (filter (\<lambda>address. address \<noteq> []) (in_rows infile)))
     \<and> ((\<forall>n r. \<exists>resp. api E n r = Inr resp \<and> has_payload resp) \<longrightarrow>
          (\<exists>rs. out_rows (world_of (processFile E infile url apiKey snooze skip_precheck w))
                  = out_rows w @ header_row # rs
             \<and> map (\<lambda>row. row ! 0) rs
                 = map JStr (concat (filter (\<lambda>address. address \<noteq> []) (in_rows infile)))))
     \<and> fst (snd (precheck E infile w))
         = length (filter (\<lambda>r. r = []) (drop (in_pos w) (in_rows infile)))
           + length (filter (\<lambda>r. r \<noteq> [] \<and> (length r \<noteq> 1
                                 \<or> validate_email E (r ! 0) \<noteq> SyntaxOK))
                       (drop (in_pos w) (in_rows infile)))"
proof -
  let ?P = "processFile E infile url apiKey snooze skip_precheck w"
  let ?w1 = "(writeheader (snd (snd (precheck E infile w))))
               \<lparr>pbar_total := fst (precheck E infile w), pbar_n := 0\<rparr>"
  let ?run = "row_loop E apiKey (in_rows infile) ?w1"
  let ?f = "\<lambda>i. \<lparr>req_method = ''GET'', req_url = projr (urljoin E (g_url E) i),
                  req_headers = [(''Authorization'', apiKey),
                                 (''Accept'', ''application/json'')]\<rparr>"
  let ?rows = "in_rows infile"
  have f: "(\<lambda>i. mk_request apiKey (projr (urljoin E (g_url E) i))) = ?f"
    by (simp add: mk_request_def)
  have w1: "sent ?w1 = sent w" by (simp add: writeheader_def precheck_sent)
  have o1: "out_rows ?w1 = out_rows w @ [header_row]"
    by (simp add: writeheader_def precheck_out)
  have same: "sent (world_of ?P) = sent (world_of ?run)"
    using assms(1,2) by (rule processFile_precheck_sent)
  have osame: "out_rows (world_of ?P) = out_rows (world_of ?run)"
    using assms(1,2) by (rule processFile_precheck_out)
  have ret: "returned ?P = returned ?run"
    using assms(1,2) by (rule processFile_precheck_returned)
  from assms(3,4) have "returned ?run" by (rule row_loop_goes)
  then obtain w3 where r: "?run = Returned w3" by (cases ?run) auto
  then have "sent w3 = sent ?w1 @ map ?f (concat ?rows)"
    using row_loop_returned_sent [of E apiKey ?rows ?w1 w3] by (simp only: f)
  with r have s: "sent (world_of ?P) = sent w @ map ?f (concat ?rows)"
    by (simp only: same w1 world_of.simps)
  have 1: "returned ?P" using ret r by simp
  have 2: "sent (world_of ?P) = sent w @ concat (map (\<lambda>address. map ?f address) ?rows)"
    using s by (simp only: map_concat)
  have 3: "length (sent (world_of ?P)) = length (sent w) + sum_list (map length ?rows)"
    using s by (simp add: length_concat)
  have 4: "sent (world_of ?P)
      = sent w @ map ?f (concat (filter (\<lambda>address. address \<noteq> []) ?rows))"
    using s by (simp only: concat_nonblank)
  have 5: "\<exists>rs. out_rows (world_of ?P) = out_rows w @ header_row # rs
             \<and> map (\<lambda>row. row ! 0) rs
                 = map JStr (concat (filter (\<lambda>address. address \<noteq> []) ?rows))"
    if p: "\<forall>n r. \<exists>resp. api E n r = Inr resp \<and> has_payload resp"
  proof -
    have "map (\<lambda>row. row ! 0) (out_rows (world_of ?run))
        = map (\<lambda>row. row ! 0) (out_rows ?w1) @ map JStr (concat ?rows)"
      using assms(3) p by (rule row_loop_payload)
    then have m: "map (\<lambda>row. row ! 0) (out_rows (world_of ?P))
        = map (\<lambda>row. row ! 0) (out_rows w @ [header_row]) @ map JStr (concat ?rows)"
      by (simp only: osame o1)
    obtain rs where rs: "out_rows (world_of ?P) = out_rows w @ header_row # rs"
      using processFile_rows [of E infile url apiKey snooze skip_precheck w] by blast
    with m have "map (\<lambda>row. row ! 0) rs = map JStr (concat ?rows)" by simp
    with rs show ?thesis by (simp only: concat_nonblank) blast
  qed
  have 6: "fst (snd (precheck E infile w))
         = length (filter (\<lambda>r. r = []) (drop (in_pos w) ?rows))
           + length (filter (\<lambda>r. r \<noteq> [] \<and> (length r \<noteq> 1
                                 \<or> validate_email E (r ! 0) \<noteq> SyntaxOK))
                       (drop (in_pos w) ?rows))"
    using precheck_counts [of E infile w]
      filter_blank_split [of "\<lambda>r. validate_email E (r ! 0) \<noteq> SyntaxOK"
        "drop (in_pos w) ?rows"]
    by simp
  from 1 2 3 4 5 6 show ?thesis by blast
qed

theorem C10_one_request_per_field_witness:
  "sent (world_of (processFile (example_env (api_const (resp_results [(''valid'', JBool True)])))
        (example_infile [[''a@example.com'', ''b@example.com''], [], [''c@example.com'']])
        [] [] 10 False init_world))
      = map (\<lambda>u. \<lparr>req_method = ''GET'', req_url = u,
                   req_headers = [(''Authorization'', []), (''Accept'', ''application/json'')]\<rparr>)
          [''https://api.sparkpost.com/api/v1/recipient-validation/single/a@example.com'',
           ''https://api.sparkpost.com/api/v1/recipient-validation/single/b@example.com'',
           ''https://api.sparkpost.com/api/v1/recipient-validation/single/c@example.com'']
   \<and> map (\<lambda>row. row ! 0) (out_rows (world_of (processFile
        (example_env (api_const (resp_results [(''valid'', JBool True)])))
        (example_infile [[''a@example.com'', ''b@example.com''], [], [''c@example.com'']])
        [] [] 10 False init_world)))
      = [JStr ''email'', JStr ''a@example.com'', JStr ''b@example.com'', JStr ''c@example.com'']
   \<and> fst (snd (precheck (example_env (api_const (resp_results [(''valid'', JBool True)])))
        (example_infile [[''a@example.com'', ''b@example.com''], [], [''c@example.com'']])
        init_world)) = 2"
proof -
  let ?E = "example_env (api_const (resp_results [(''valid'', JBool True)]))"
  let ?F = "example_infile [[''a@example.com'', ''b@example.com''], [], [''c@example.com'']]"
  let ?P = "processFile ?E ?F [] [] 10 False init_world"
  have s: "in_seekable ?F" by (simp add: example_infile_def)
  have n: "\<not> False" by simp
  have j: "\<forall>i\<in>set (concat (in_rows ?F)). \<exists>u. urljoin ?E (g_url ?E) i = Inr u"
    by (simp add: example_env_def)
  have p: "\<forall>n r. \<exists>resp. api ?E n r = Inr resp \<and> has_payload resp"
    by (simp add: example_env_def api_const_def has_payload_def resp_results_def)
  then have a: "\<forall>n r. \<exists>resp. api ?E n r = Inr resp \<and> benign resp"
    using has_payload_benign by blast
  note t = C10_one_request_per_field [OF s n j a, of "[]" "[]" 10 init_world]
  have rows: "concat (filter (\<lambda>address. address \<noteq> []) (in_rows ?F))
      = [''a@example.com'', ''b@example.com'', ''c@example.com'']"
    by (simp add: example_infile_def in_rows_def)
  have i: "sent init_world = []" "out_rows init_world = []" by (simp_all add: init_world_def)
  from t have "sent (world_of ?P) = sent init_world
      @ map (\<lambda>i. \<lparr>req_method = ''GET'', req_url = projr (urljoin ?E (g_url ?E) i),
                   req_headers = [(''Authorization'', []), (''Accept'', ''application/json'')]\<rparr>)
          (concat (filter (\<lambda>address. address \<noteq> []) (in_rows ?F)))"
    by blast
  then have 1: "sent (world_of ?P)
      = map (\<lambda>u. \<lparr>req_method = ''GET'', req_url = u,
                   req_headers = [(''Authorization'', []), (''Accept'', ''application/json'')]\<rparr>)
          [''https://api.sparkpost.com/api/v1/recipient-validation/single/a@example.com'',
           ''https://api.sparkpost.com/api/v1/recipient-validation/single/b@example.com'',
           ''https://api.sparkpost.com/api/v1/recipient-validation/single/c@example.com'']"
    by (simp add: rows i example_env_def)
  from t p obtain rs where "out_rows (world_of ?P) = out_rows init_world @ header_row # rs"
      "map (\<lambda>row. row ! 0) rs
         = map JStr (concat (filter (\<lambda>address. address \<noteq> []) (in_rows ?F)))"
    by blast
  then have 2: "map (\<lambda>row. row ! 0) (out_rows (world_of ?P))
      = [JStr ''email'', JStr ''a@example.com'', JStr ''b@example.com'', JStr ''c@example.com'']"
    by (simp add: rows i header_row_def fList_def)
  have 3: "fst (snd (precheck ?E ?F init_world)) = 2"
    by (simp add: precheck_def example_env_def example_infile_def init_world_def eprint_def
          Let_def)
  from 1 2 3 show ?thesis by (intro conjI)
qed

text \<open>
  C10, as stated: in a row of three fields whose second answer is not JSON, two
  requests are sent and one row is written before the run raises.
\<close>

theorem C10_raise_within_row:
  "processFile (example_env api_second_not_json)
      (example_infile [[''a@example.com'', ''b@example.com'', ''c@example.com'']])
      [] [] 10 False init_world
     = Raised JSONDecodeError
        \<lparr>in_pos = 1,
         out_rows = [header_row,
            [JStr ''a@example.com'', JBool True, JStr '''', JStr '''', JStr '''', JStr '''',
             JStr '''', JStr '''']],
         err_log = [LogScanned ''in.csv'' 0 1],
         std_out = [], slept = [],
         sent = map (\<lambda>u. \<lparr>req_method = ''GET'', req_url = u,
                   req_headers = [(''Authorization'', []), (''Accept'', ''application/json'')]\<rparr>)
          [''https://api.sparkpost.com/api/v1/recipient-validation/single/a@example.com'',
           ''https://api.sparkpost.com/api/v1/recipient-validation/single/b@example.com''],
         pbar_total = 0, pbar_n = 1, in_closed = False, out_closed = False\<rparr>"
  by (simp add: run_defs effects api_second_not_json_def dict_to_list_def fList_def)

end
